theory Spec2Isabelle
  imports Complex_Main
begin

section \<open>Data model of \<open>kuka_invkin_ctrl.cpp\<close>\<close>

text \<open>
  The node \<open>KUKA_INVKIN\<close> keeps the joint feedback, the last end-effector frame, three
  control flags, a frequency and a clock. Arrays indexed with \<open>data[i]\<close> are lists; an
  access outside the list is undefined behaviour in C++ and is the value \<open>None\<close> here.
\<close>

subsection \<open>Floating-point numbers\<close>

text \<open>
  A finite \<open>float\<close> or \<open>double\<close> is the real number it denotes. The clock \<open>_t\<close> and the
  errors \<open>e\<close>, \<open>max_e\<close> of the initial positioning are \<open>float\<close>; every arithmetic result
  stored in them is rounded, and the rounding is part of the model: \<open>ieee_round p emin\<close>
  rounds a real to the nearest number with a significand of \<open>p\<close> bits and a unit in the
  last place not below \<open>2 powi emin\<close>, ties going to the even significand (IEEE 754
  round-to-nearest-even, the default mode). \<open>to_float\<close> is the rounding of binary32 and
  \<open>to_double\<close> the rounding of binary64. Infinities and NaN are outside the model: the
  exponent has no upper bound, so a result beyond the largest finite number stays a
  large number, and the feedback is taken to be finite.
\<close>

definition round_half_even :: "real \<Rightarrow> int" where
  "round_half_even y =
     (let f = \<lfloor>y\<rfloor>; r = y - of_int f
      in if r < 1 / 2 then f else if 1 / 2 < r then f + 1 else if even f then f else f + 1)"

definition ieee_round :: "nat \<Rightarrow> int \<Rightarrow> real \<Rightarrow> real" where
  "ieee_round p emin x =
     (if x = 0 then 0
      else (let e = \<lfloor>log 2 \<bar>x\<bar>\<rfloor>; u = max (e - (int p - 1)) emin
            in of_int (round_half_even (x / 2 powi u)) * 2 powi u))"

definition to_float :: "real \<Rightarrow> real" where
  "to_float = ieee_round 24 (- 149)"

definition to_double :: "real \<Rightarrow> real" where
  "to_double = ieee_round 53 (- 1074)"

text \<open>The numbers a format holds: a significand of fewer than \<open>p\<close> bits times a power of two.\<close>

definition representable :: "nat \<Rightarrow> int \<Rightarrow> real \<Rightarrow> bool" where
  "representable p emin x = (\<exists>k v. x = of_int k * 2 powi v \<and> \<bar>k\<bar> < 2 ^ p \<and> emin \<le> v)"

subsection \<open>Frames, messages and the state of the node\<close>

text \<open>\<open>KDL::Frame\<close>: the vector \<open>p.data[3]\<close> and the row-major rotation \<open>M.data[9]\<close>.\<close>

record frame =
  frame_p :: "real list"
  frame_M :: "real list"

text \<open>The default constructor \<open>KDL::Frame()\<close>: zero vector, identity rotation.\<close>

definition Frame0 :: frame where
  "Frame0 = \<lparr>frame_p = [0, 0, 0], frame_M = [1, 0, 0, 0, 1, 0, 0, 0, 1]\<rparr>"

text \<open>\<open>geometry_msgs::Pose\<close>; its constructor sets every field to zero.\<close>

record pose_msg =
  position_x :: real
  position_y :: real
  position_z :: real
  orientation_x :: real
  orientation_y :: real
  orientation_z :: real
  orientation_w :: real

definition Pose0 :: pose_msg where
  "Pose0 = \<lparr>position_x = 0, position_y = 0, position_z = 0,
            orientation_x = 0, orientation_y = 0, orientation_z = 0, orientation_w = 0\<rparr>"

text \<open>
  What the node emits: a pose on \<open>_cartpose_pub\<close>, a scalar on \<open>_cmd_pub[i]\<close>, a line on
  \<open>cout\<close>, and the two kinds of waiting (\<open>r.sleep()\<close> and \<open>sleep(2)\<close>).
\<close>

datatype action =
    PublishPose pose_msg
  | PublishCmd nat real
  | Cout string
  | RateSleep
  | Sleep nat

text \<open>
  The KDL solvers are an external library. They enter the model as parameters:
  \<open>JntToCart q p_out\<close> is the frame left in \<open>p_out\<close>, \<open>GetQuaternion M\<close> is
  \<open>(qx, qy, qz, qw)\<close>, and \<open>CartToJnt q_init F q_out\<close> is the return code together with
  the joint array left in \<open>q_out\<close>.
\<close>

record kdl =
  JntToCart :: "real list \<Rightarrow> frame \<Rightarrow> frame"
  GetQuaternion :: "real list \<Rightarrow> real \<times> real \<times> real \<times> real"
  CartToJnt :: "real list \<Rightarrow> frame \<Rightarrow> real list \<Rightarrow> int \<times> real list"

text \<open>\<open>KDL::SolverI::E_NOERROR\<close>, the code of a successful solve.\<close>

definition E_NOERROR :: int where
  "E_NOERROR = 0"

text \<open>
  Where the thread of \<open>ctrl_loop\<close> stands once the first pose has been computed: in the
  loop of \<open>goto_initial_position\<close>, at \<open>getline\<close> waiting for the operator, or in the
  tracking loop.
\<close>

datatype ctrl_phase = Homing | AwaitStart | Tracking

text \<open>
  The members of \<open>KUKA_INVKIN\<close> (\<open>elapsed\<close> is \<open>_t\<close>, a \<open>float\<close>), the locals that
  \<open>get_dirkin\<close> and \<open>ctrl_loop\<close> keep across the iterations of their loops (\<open>cpose\<close>,
  \<open>F_dest\<close>, \<open>q_out\<close>), the phase of \<open>ctrl_loop\<close>, and the log of everything emitted so
  far.
\<close>

record state =
  first_js :: bool
  first_fk :: bool
  start_traj :: bool
  freq :: int
  elapsed :: real
  q_in :: "real list"
  p_out :: frame
  cpose :: pose_msg
  F_dest :: frame
  q_out :: "real list"
  ctrl_pc :: ctrl_phase
  out :: "action list"

text \<open>
  The constructor, for a chain of \<open>n\<close> joints (\<open>_k_chain.getNrOfJoints()\<close>); a
  \<open>KDL::JntArray\<close> starts as zeros. When the robot model cannot be loaded the constructor
  ends the process, so there is no node and no state; its two greeting lines, written
  before any thread starts, are left out of the log.
\<close>

definition KUKA_INVKIN :: "nat \<Rightarrow> state" where
  "KUKA_INVKIN n =
     \<lparr>first_js = False, first_fk = False, start_traj = False,
      freq = 50, elapsed = 0,
      q_in = replicate n 0, p_out = Frame0, cpose = Pose0,
      F_dest = Frame0, q_out = replicate n 0, ctrl_pc = Homing, out = []\<rparr>"

section \<open>The desired pose of \<open>ctrl_loop\<close>\<close>

text \<open>
  Lines 282 to 300: the three assignments to \<open>F_dest.p.data\<close> and the loop over the nine
  entries of \<open>F_dest.M.data\<close>. \<open>M_PI\<close> is \<open>pi\<close>. The position is computed in \<open>double\<close> with
  the cosine and sine of the C library, whose results are not specified to the last bit;
  it is modelled on the reals, and what is stated about it holds up to the floating-point
  tolerance the claims speak of.
\<close>

definition set_rotation :: "real list \<Rightarrow> real list" where
  "set_rotation M =
     fold (\<lambda>i M. if i = 0 \<or> i = 4 \<or> i = 8 then M[i := 1] else M[i := 0]) [0..<9] M"

definition gen_F_dest :: "real \<Rightarrow> frame \<Rightarrow> frame" where
  "gen_F_dest t F =
     (let p0 = (frame_p F)[0 := 0.3 * cos (t / (2 * pi))];
          p1 = p0[1 := 0.3 * sin (t / (2 * pi))];
          p2 = p1[2 := 1.0]
      in F\<lparr>frame_p := p2, frame_M := set_rotation (frame_M F)\<rparr>)"

section \<open>Feedback ingestion: \<open>joint_states_cb\<close>\<close>

text \<open>
  The loop \<open>for (i = 0; i < 7; i++) dst[i] = src[i]\<close>, over the indices it visits. Neither
  \<open>std::vector::operator[]\<close> nor \<open>JntArray::data[i]\<close> checks its index: a read or a write
  outside the array is undefined behaviour, \<open>None\<close>.
\<close>

fun copy_loop :: "nat list \<Rightarrow> real list \<Rightarrow> real list \<Rightarrow> real list option" where
  "copy_loop [] src dst = Some dst"
| "copy_loop (i # is) src dst =
     (if i < length src \<and> i < length dst then copy_loop is src (dst[i := src ! i]) else None)"

text \<open>Lines 149 to 158; \<open>position\<close> is \<open>js.position\<close>.\<close>

definition joint_states_cb :: "real list \<Rightarrow> state \<Rightarrow> state option" where
  "joint_states_cb position s =
     (case copy_loop [0..<7] position (q_in s) of
        None \<Rightarrow> None
      | Some q \<Rightarrow> Some (s\<lparr>q_in := q, first_js := True\<rparr>))"

section \<open>Initial positioning: \<open>goto_initial_position\<close>\<close>

text \<open>
  The inner loop of lines 177 to 183, for the target \<open>dp\<close> (an array of \<open>float\<close>) and the
  joint array \<open>q\<close> that \<open>_q_in\<close> holds during this poll: it publishes \<open>dp[i]\<close> on channel
  \<open>i\<close> and keeps the running maximum \<open>max_e\<close>. The difference \<open>cmd[i].data - q[i]\<close> is a
  \<open>double\<close> subtraction, and its absolute value is narrowed to the \<open>float\<close> \<open>e\<close>.
\<close>

fun goto_for ::
  "nat list \<Rightarrow> real list \<Rightarrow> real list \<Rightarrow> real \<Rightarrow> action list \<Rightarrow> (real \<times> action list) option" where
  "goto_for [] dp q max_e acts = Some (max_e, acts)"
| "goto_for (i # is) dp q max_e acts =
     (if i < length dp \<and> i < length q then
        (let c = dp ! i; e = to_float \<bar>to_double (c - q ! i)\<bar>
         in goto_for is dp q (if e > max_e then e else max_e) (acts @ [PublishCmd i c]))
      else None)"

text \<open>
  The \<open>while (max_e > 0.002)\<close> loop may run forever, so it carries fuel: the number of
  bodies it may still execute. The guard compares the \<open>float\<close> \<open>max_e\<close> with the \<open>double\<close>
  literal \<open>0.002\<close>, which is \<open>to_double 0.002\<close>. \<open>fb k\<close> is the content of \<open>_q_in\<close> during
  poll \<open>k\<close>. The result is how the loop ended, the number of polls executed and the log.
\<close>

datatype outcome = Returned | OutOfBounds | OutOfFuel

fun goto_while ::
  "nat \<Rightarrow> real list \<Rightarrow> (nat \<Rightarrow> real list) \<Rightarrow> nat \<Rightarrow> real \<Rightarrow> action list
   \<Rightarrow> outcome \<times> nat \<times> action list" where
  "goto_while 0 dp fb k max_e acts =
     (if max_e > to_double 0.002 then (OutOfFuel, k, acts) else (Returned, k, acts))"
| "goto_while (Suc fuel) dp fb k max_e acts =
     (if max_e > to_double 0.002 then
        (case goto_for [0..<7] dp (fb k) (- 1000) acts of
           None \<Rightarrow> (OutOfBounds, k, acts)
         | Some (m, acts') \<Rightarrow> goto_while fuel dp fb (Suc k) m (acts' @ [RateSleep]))
      else (Returned, k, acts))"

text \<open>Lines 164 to 188: \<open>max_e\<close> starts at 1000; after the loop, \<open>sleep(2)\<close>.\<close>

definition goto_initial_position ::
  "nat \<Rightarrow> real list \<Rightarrow> (nat \<Rightarrow> real list) \<Rightarrow> outcome \<times> nat \<times> action list" where
  "goto_initial_position fuel dp fb =
     (case goto_while fuel dp fb 0 1000 [] of
        (Returned, k, acts) \<Rightarrow> (Returned, k, acts @ [Sleep 2])
      | r \<Rightarrow> r)"

section \<open>Pose estimation: one iteration of the loop of \<open>get_dirkin\<close>\<close>

text \<open>
  Lines 207 to 234. The four assignments to \<open>cpose.orientation\<close> are kept in the order
  and with the fields of the source. A \<open>KDL::Vector\<close> has three coordinates, so \<open>p.x()\<close>,
  \<open>p.y()\<close> and \<open>p.z()\<close> are the entries 0, 1 and 2 of \<open>frame_p\<close>. In line 207 the quotient
  \<open>1.0/_freq\<close> and the sum are computed in \<open>double\<close>, and the sum is narrowed to the
  \<open>float\<close> \<open>_t\<close>.
\<close>

definition get_dirkin_tick :: "kdl \<Rightarrow> state \<Rightarrow> state" where
  "get_dirkin_tick K s =
     (let s1 = (if start_traj s
                then s\<lparr>elapsed :=
                         to_float (to_double (elapsed s + to_double (1.0 / real_of_int (freq s))))\<rparr>
                else s);
          s2 = s1\<lparr>p_out := JntToCart K (q_in s1) (p_out s1)\<rparr>;
          c0 = cpose s2;
          c1 = c0\<lparr>position_x := frame_p (p_out s2) ! 0\<rparr>;
          c2 = c1\<lparr>position_y := frame_p (p_out s2) ! 1\<rparr>;
          c3 = c2\<lparr>position_z := frame_p (p_out s2) ! 2\<rparr>;
          (qx, qy, qz, qw) = GetQuaternion K (frame_M (p_out s2));
          c4 = c3\<lparr>orientation_w := qw\<rparr>;
          c5 = c4\<lparr>orientation_x := qx\<rparr>;
          c6 = c5\<lparr>orientation_y := qy\<rparr>;
          c7 = c6\<lparr>orientation_x := qz\<rparr>;
          s3 = s2\<lparr>cpose := c7, out := out s2 @ [PublishPose c7]\<rparr>;
          s4 = s3\<lparr>first_fk := True\<rparr>
      in s4\<lparr>out := out s4 @ [RateSleep]\<rparr>)"

section \<open>Tracking control: \<open>ctrl_loop\<close>\<close>

text \<open>
  Lines 248 to 255, the fixed initial position: \<open>double\<close> literals stored in an array of
  \<open>float\<close>.
\<close>

definition i_cmd :: "real list" where
  "i_cmd = map (\<lambda>x. to_float (to_double x)) [0.0, 1.57, 0.0, 1.57, 0.0, 0.0, 0.0]"

text \<open>
  Lines 282 to 316, one iteration of the tracking loop. The array \<open>cmd[7]\<close> is written in
  full before it is read, so it starts each iteration as seven zeros.
\<close>

definition ctrl_loop_tick :: "kdl \<Rightarrow> state \<Rightarrow> state option" where
  "ctrl_loop_tick K s =
     (let F = gen_F_dest (elapsed s) (F_dest s);
          (rc, q) = CartToJnt K (q_in s) F (q_out s);
          diag = (if rc \<noteq> E_NOERROR then [Cout ''failing in ik!''] else [])
      in case copy_loop [0..<7] q (replicate 7 0) of
           None \<Rightarrow> None
         | Some cmd \<Rightarrow>
             Some (s\<lparr>F_dest := F, q_out := q,
                     out := out s @ diag @ map (\<lambda>i. PublishCmd i (cmd ! i)) [0..<7]
                            @ [RateSleep]\<rparr>))"

section \<open>Executions\<close>

text \<open>
  The two threads and the subscriber callback interleave. An execution is a sequence of
  the following events, each taken as one step: a feedback message, one iteration of the
  loop of \<open>get_dirkin\<close>, one poll of \<open>goto_initial_position\<close> on \<open>i_cmd\<close> together with
  the test of the loop guard that follows it, the operator's confirmation (lines 270 to
  273) and one iteration of the tracking loop. An event is enabled only where its thread
  stands: the loop of \<open>get_dirkin\<close> behind \<open>while (!_first_js)\<close>; the polls behind
  \<open>while (!_first_fk)\<close> and until a poll leaves \<open>max_e\<close> not above the threshold, after
  which \<open>sleep(2)\<close> runs and \<open>ctrl_loop\<close> waits for the operator; the tracking loop after
  the confirmation has set \<open>_start_traj\<close>. The first test of the guard, on
  \<open>max_e = 1000\<close>, always enters the loop.
\<close>

datatype event =
    JointStates "real list"
  | DirkinTick
  | HomingPoll
  | StartTraj
  | CtrlTick

fun step :: "kdl \<Rightarrow> state \<Rightarrow> event \<Rightarrow> state option" where
  "step K s (JointStates position) = joint_states_cb position s"
| "step K s DirkinTick = (if first_js s then Some (get_dirkin_tick K s) else None)"
| "step K s HomingPoll =
     (if first_fk s \<and> ctrl_pc s = Homing then
        (case goto_for [0..<7] i_cmd (q_in s) (- 1000) [] of
           None \<Rightarrow> None
         | Some (max_e, acts) \<Rightarrow>
             (if max_e > to_double 0.002
              then Some (s\<lparr>out := out s @ acts @ [RateSleep]\<rparr>)
              else Some (s\<lparr>out := out s @ acts @ [RateSleep, Sleep 2],
                           ctrl_pc := AwaitStart\<rparr>)))
      else None)"
| "step K s StartTraj =
     (if ctrl_pc s = AwaitStart then
        Some (s\<lparr>out := out s @ [Cout ''Press enter to start the trajectory execution''],
                start_traj := True, ctrl_pc := Tracking\<rparr>)
      else None)"
| "step K s CtrlTick = (if ctrl_pc s = Tracking then ctrl_loop_tick K s else None)"

fun exec :: "kdl \<Rightarrow> state \<Rightarrow> event list \<Rightarrow> state option" where
  "exec K s [] = Some s"
| "exec K s (e # es) = (case step K s e of None \<Rightarrow> None | Some s' \<Rightarrow> exec K s' es)"

section \<open>Solver instances for running the model\<close>

text \<open>
  Two instances of the external solvers, to run the model on concrete inputs. With
  \<open>still_kdl\<close> the end effector stays in the default frame and every inverse-kinematics
  call succeeds, returning its initial guess. With \<open>failing_kdl\<close> the end effector is
  turned by half a turn about the z axis, whose quaternion \<open>(qx, qy, qz, qw)\<close> is
  \<open>(0, 0, 1, 0)\<close>, and every inverse-kinematics call ends on a code other than
  \<open>E_NOERROR\<close>, leaving \<open>q_out\<close> as it was.
\<close>

definition still_kdl :: kdl where
  "still_kdl =
     \<lparr>JntToCart = (\<lambda>q p. Frame0),
      GetQuaternion = (\<lambda>M. (0, 0, 0, 1)),
      CartToJnt = (\<lambda>q F qo. (E_NOERROR, q))\<rparr>"

definition failing_kdl :: kdl where
  "failing_kdl =
     \<lparr>JntToCart = (\<lambda>q p. \<lparr>frame_p = [0, 0, 1.306], frame_M = [- 1, 0, 0, 0, - 1, 0, 0, 0, 1]\<rparr>),
      GetQuaternion = (\<lambda>M. (0, 0, 1, 0)),
      CartToJnt = (\<lambda>q F qo. (- 5, qo))\<rparr>"

text \<open>
  Two feedback streams for \<open>goto_initial_position\<close>: \<open>steady q\<close> reports \<open>q\<close> at every poll,
  and \<open>settling n q0 q1\<close> reports \<open>q0\<close> during the first \<open>n\<close> polls and \<open>q1\<close> from then on.
\<close>

definition steady :: "real list \<Rightarrow> nat \<Rightarrow> real list" where
  "steady q k = q"


section \<open>Notions of the specification\<close>


definition rounded_max_err :: "real list \<Rightarrow> real list \<Rightarrow> real" where
  "rounded_max_err dp q = Max ((\<lambda>i. to_float \<bar>to_double (dp ! i - q ! i)\<bar>) ` {0..<7})"

text \<open>
  The clock of a node that runs at 50 Hz is well formed when it is a non-negative
  \<open>float\<close>.
\<close>

definition clock_ok :: "state \<Rightarrow> bool" where
  "clock_ok s = (freq s = 50 \<and> 0 \<le> elapsed s \<and> representable 24 (- 149) (elapsed s))"

text \<open>The commands of one poll of the homing loop, and the log of \<open>n\<close> complete polls.\<close>

definition poll_cmds :: "real list \<Rightarrow> action list" where
  "poll_cmds dp = map (\<lambda>i. PublishCmd i (dp ! i)) [0..<7]"


section \<open>Properties of the rounding\<close>

lemma round_half_even_bounds: "\<lfloor>y\<rfloor> \<le> round_half_even y \<and> round_half_even y \<le> \<lfloor>y\<rfloor> + 1"
  by (simp add: round_half_even_def Let_def)

lemma two_powr_int: "(2::real) powr real_of_int k = 2 powi k"
  by (rule powr_real_of_int') simp_all

lemma two_powr_int_Suc: "(2::real) powr (real_of_int k + 1) = 2 powi (k + 1)"
  using two_powr_int [of "k + 1"] by simp

lemma two_powi_pos: "(0::real) < 2 powi k"
  by (rule zero_less_power_int) simp

lemma exponent_bounds:
  assumes "x \<noteq> 0"
  shows "2 powi \<lfloor>log 2 \<bar>x\<bar>\<rfloor> \<le> \<bar>x\<bar>" and "\<bar>x\<bar> < 2 powi (\<lfloor>log 2 \<bar>x\<bar>\<rfloor> + 1)"
proof -
  from assms have "0 < \<bar>x\<bar>" by simp
  from floor_log_eq_powr_iff [OF this, of 2 "\<lfloor>log 2 \<bar>x\<bar>\<rfloor>"]
  have "2 powr real_of_int \<lfloor>log 2 \<bar>x\<bar>\<rfloor> \<le> \<bar>x\<bar>"
    and "\<bar>x\<bar> < 2 powr real_of_int (\<lfloor>log 2 \<bar>x\<bar>\<rfloor> + 1)" by simp_all
  then show "2 powi \<lfloor>log 2 \<bar>x\<bar>\<rfloor> \<le> \<bar>x\<bar>" and "\<bar>x\<bar> < 2 powi (\<lfloor>log 2 \<bar>x\<bar>\<rfloor> + 1)"
    by (simp_all add: two_powr_int two_powr_int_Suc)
qed

lemma exponent_eq:
  assumes "2 powi e \<le> \<bar>x\<bar>" and "\<bar>x\<bar> < 2 powi (e + 1)"
  shows "\<lfloor>log 2 \<bar>x\<bar>\<rfloor> = e"
proof -
  have "(0::real) < 2 powi e" by (rule two_powi_pos)
  with assms(1) have "0 < \<bar>x\<bar>" by linarith
  from floor_log_eq_powr_iff [OF this, of 2 e] assms show ?thesis
    by (simp add: two_powr_int two_powr_int_Suc)
qed

lemma ieee_round_eval:
  assumes "2 powi e \<le> \<bar>x\<bar>" and "\<bar>x\<bar> < 2 powi (e + 1)"
    and "max (e - (int p - 1)) emin = u" and "round_half_even (x / 2 powi u) = k"
  shows "ieee_round p emin x = of_int k * 2 powi u"
proof -
  have "(0::real) < 2 powi e" by (rule two_powi_pos)
  with assms(1) have "0 < \<bar>x\<bar>" by linarith
  then have "x \<noteq> 0" by simp
  with exponent_eq [OF assms(1,2)] assms(3,4) show ?thesis
    by (simp add: ieee_round_def Let_def)
qed


lemma two_powi_nat: "0 \<le> k \<Longrightarrow> (2::real) powi k = of_int (2 ^ nat k)"
  by (simp add: power_int_def)

lemma two_powi_diff: "(2::real) powi a / 2 powi b = 2 powi (a - b)"
  by (simp add: power_int_diff)

lemma representable_zero: "representable p emin 0"
  unfolding representable_def by (intro exI [of _ 0] exI [of _ emin]) simp

lemma ieee_round_representable:
  assumes "0 < p"
  shows "representable p emin (ieee_round p emin x)"
proof (cases "x = 0")
  case True
  then show ?thesis by (simp add: ieee_round_def representable_zero)
next
  case False
  define e where "e = \<lfloor>log 2 \<bar>x\<bar>\<rfloor>"
  define u where "u = max (e - (int p - 1)) emin"
  define k where "k = round_half_even (x / 2 powi u)"
  have r: "ieee_round p emin x = of_int k * 2 powi u"
    using False by (simp add: ieee_round_def Let_def e_def u_def k_def)
  have u: "emin \<le> u" "e + 1 - u \<le> int p" by (simp_all add: u_def)
  from exponent_bounds(2) [OF False] have "\<bar>x\<bar> < 2 powi (e + 1)" by (simp add: e_def)
  then have "\<bar>x\<bar> / 2 powi u < 2 powi (e + 1) / 2 powi u"
    by (simp add: divide_strict_right_mono two_powi_pos)
  also have "\<dots> = 2 powi (e + 1 - u)" by (rule two_powi_diff)
  also have "\<dots> \<le> 2 powi (int p)" using u(2) by (intro power_int_increasing) simp_all
  finally have a: "\<bar>x\<bar> / 2 powi u < 2 ^ p" by simp
  have "\<bar>x / 2 powi u\<bar> = \<bar>x\<bar> / 2 powi u" by (simp add: abs_divide)
  with a have "\<bar>x / 2 powi u\<bar> < 2 ^ p" by (simp only:)
  then have "x / 2 powi u < 2 ^ p" "- (2 ^ p) < x / 2 powi u" by linarith+
  then have y: "x / 2 powi u < of_int (2 ^ p)" "- of_int (2 ^ p) < x / 2 powi u" by simp_all
  from y(1) have "\<lfloor>x / 2 powi u\<rfloor> < 2 ^ p" by (simp only: floor_less_iff)
  moreover from y(2) have "- (2 ^ p) \<le> \<lfloor>x / 2 powi u\<rfloor>" by (simp add: le_floor_iff)
  ultimately have k: "\<bar>k\<bar> \<le> 2 ^ p"
    using round_half_even_bounds [of "x / 2 powi u"] unfolding k_def by linarith
  show ?thesis
  proof (cases "\<bar>k\<bar> < 2 ^ p")
    case True
    with r u(1) show ?thesis unfolding representable_def by blast
  next
    case False
    with k have "\<bar>k\<bar> = 2 ^ p" by simp
    then consider "k = 2 ^ p" | "k = - (2 ^ p)" by linarith
    then show ?thesis
    proof cases
      case 1
      obtain q where q: "p = Suc q" using assms by (cases p) auto
      have "of_int k * 2 powi u = of_int (2 ^ q) * (2::real) powi (u + 1)"
        using 1 q by (simp add: power_int_add)
      moreover have "\<bar>2 ^ q :: int\<bar> < 2 ^ p" using q by simp
      moreover have "emin \<le> u + 1" using u(1) by simp
      ultimately show ?thesis using r unfolding representable_def by metis
    next
      case 2
      obtain q where q: "p = Suc q" using assms by (cases p) auto
      have "of_int k * 2 powi u = of_int (- (2 ^ q)) * (2::real) powi (u + 1)"
        using 2 q by (simp add: power_int_add)
      moreover have "\<bar>- (2 ^ q) :: int\<bar> < 2 ^ p" using q by simp
      moreover have "emin \<le> u + 1" using u(1) by simp
      ultimately show ?thesis using r unfolding representable_def by metis
    qed
  qed
qed


lemma ieee_round_ge:
  assumes "representable p emin g" and "0 \<le> g" and "g \<le> x" and "0 < p"
  shows "g \<le> ieee_round p emin x"
proof (cases "x = 0")
  case True
  with assms(2,3) show ?thesis by (simp add: ieee_round_def)
next
  case False
  with assms(2,3) have xpos: "0 < x" by simp
  define e where "e = \<lfloor>log 2 \<bar>x\<bar>\<rfloor>"
  define u where "u = max (e - (int p - 1)) emin"
  define y where "y = x / 2 powi u"
  have r: "ieee_round p emin x = of_int (round_half_even y) * 2 powi u"
    using False by (simp add: ieee_round_def Let_def e_def u_def y_def)
  have x: "x = y * 2 powi u" using two_powi_pos [of u] by (simp add: y_def)
  from exponent_bounds(1) [OF False] xpos have ex: "2 powi e \<le> x" by (simp add: e_def)
  have "of_int \<lfloor>y\<rfloor> * 2 powi u \<le> of_int (round_half_even y) * (2::real) powi u"
    using round_half_even_bounds [of y] two_powi_pos [of u]
    by (intro mult_right_mono) simp_all
  moreover have "g \<le> of_int \<lfloor>y\<rfloor> * 2 powi u"
  proof -
    from assms(1) obtain k v where g: "g = of_int k * 2 powi v" and k: "\<bar>k\<bar> < 2 ^ p"
      and v: "emin \<le> v" unfolding representable_def by blast
    show ?thesis
    proof (cases "u \<le> v")
      case True
      then have "(2::real) powi (v - u) = of_int (2 ^ nat (v - u))" by (simp add: two_powi_nat)
      moreover have "(2::real) powi v = 2 powi (v - u) * 2 powi u"
        using power_int_add [of "2::real" "v - u" u] by simp
      ultimately have gi: "g = of_int (k * 2 ^ nat (v - u)) * 2 powi u"
        using g by simp
      with assms(3) x have "of_int (k * 2 ^ nat (v - u)) * 2 powi u \<le> y * 2 powi u" by simp
      then have "of_int (k * 2 ^ nat (v - u)) \<le> y"
        using two_powi_pos [of u] by (simp only: mult_le_cancel_right_pos)
      then have "k * 2 ^ nat (v - u) \<le> \<lfloor>y\<rfloor>" by (simp only: le_floor_iff)
      then have "(of_int (k * 2 ^ nat (v - u)) :: real) \<le> of_int \<lfloor>y\<rfloor>" by (simp only: of_int_le_iff)
      then have "of_int (k * 2 ^ nat (v - u)) * 2 powi u \<le> of_int \<lfloor>y\<rfloor> * (2::real) powi u"
        using two_powi_pos [of u] by (intro mult_right_mono) simp_all
      with gi show ?thesis by simp
    next
      case False
      with v have ue: "u = e - (int p - 1)" and vu: "v \<le> u - 1" by (simp_all add: u_def)
      have "(of_int k :: real) \<le> 2 ^ p"
      proof -
        from k have "k \<le> 2 ^ p" by simp
        then have "(of_int k :: real) \<le> of_int (2 ^ p)" by (simp only: of_int_le_iff)
        then show ?thesis by simp
      qed
      then have "g \<le> 2 ^ p * 2 powi v"
        unfolding g using two_powi_pos [of v] by (intro mult_right_mono) simp_all
      also have "\<dots> = 2 powi (int p + v)" by (simp add: power_int_add)
      also have "\<dots> \<le> 2 powi e" using vu ue by (intro power_int_increasing) simp_all
      finally have ge: "g \<le> 2 powi e" .
      have "(2::real) powi e = 2 powi (e - u) * 2 powi u"
        using power_int_add [of "2::real" "e - u" u] by simp
      moreover have "(2::real) powi (e - u) = of_int (2 ^ nat (e - u))"
        using ue assms(4) by (simp add: two_powi_nat)
      ultimately have ei: "(2::real) powi e = of_int (2 ^ nat (e - u)) * 2 powi u" by simp
      with ex x have "of_int (2 ^ nat (e - u)) * 2 powi u \<le> y * 2 powi u" by simp
      then have "of_int (2 ^ nat (e - u)) \<le> y"
        using two_powi_pos [of u] by (simp only: mult_le_cancel_right_pos)
      then have "2 ^ nat (e - u) \<le> \<lfloor>y\<rfloor>" by (simp only: le_floor_iff)
      then have "(of_int (2 ^ nat (e - u)) :: real) \<le> of_int \<lfloor>y\<rfloor>" by (simp only: of_int_le_iff)
      then have "of_int (2 ^ nat (e - u)) * 2 powi u \<le> of_int \<lfloor>y\<rfloor> * (2::real) powi u"
        using two_powi_pos [of u] by (intro mult_right_mono) simp_all
      with ei ge show ?thesis by linarith
    qed
  qed
  ultimately show ?thesis using r by linarith
qed

lemma ieee_round_nonneg: "0 < p \<Longrightarrow> 0 \<le> x \<Longrightarrow> 0 \<le> ieee_round p emin x"
  using ieee_round_ge [OF representable_zero, of x p emin] by simp

lemma representable_float_double:
  "representable 24 (- 149) x \<Longrightarrow> representable 53 (- 1074) x"
proof -
  assume "representable 24 (- 149) x"
  then obtain k v where "x = of_int k * 2 powi v" "\<bar>k\<bar> < 2 ^ 24" "- 149 \<le> v"
    unfolding representable_def by blast
  then have "x = of_int k * 2 powi v \<and> \<bar>k\<bar> < 2 ^ 53 \<and> - 1074 \<le> v" by simp
  then show ?thesis unfolding representable_def by blast
qed

text \<open>The roundings that occur on the concrete inputs used below.\<close>

lemma to_double_0002: "to_double 0.002 = 4611686018427388 / 2 ^ 61"
  unfolding to_double_def
  by (subst ieee_round_eval [where e = "- 9" and u = "- 61" and k = 4611686018427388])
    (simp_all add: power_int_minus round_half_even_def Let_def)

lemma to_double_002: "to_double (1 / 50) = 5764607523034235 / 2 ^ 58"
  unfolding to_double_def
  by (subst ieee_round_eval [where e = "- 6" and u = "- 58" and k = 5764607523034235])
    (simp_all add: power_int_minus round_half_even_def Let_def)

lemma first_increment: "to_float (to_double (0 + to_double (1 / 50))) = 5368709 / 2 ^ 28"
proof -
  have a: "to_double (5764607523034235 / 2 ^ 58) = 5764607523034235 / 2 ^ 58"
    unfolding to_double_def
    by (subst ieee_round_eval [where e = "- 6" and u = "- 58" and k = 5764607523034235])
      (simp_all add: power_int_minus round_half_even_def Let_def)
  have b: "to_float (5764607523034235 / 2 ^ 58) = 5368709 / 2 ^ 28"
    unfolding to_float_def
    by (subst ieee_round_eval [where e = "- 6" and u = "- 29" and k = 10737418])
      (simp_all add: power_int_minus round_half_even_def Let_def)
  show ?thesis by (simp only: to_double_002 add_0 a b)
qed

lemma stalled_increment: "to_float (to_double (524288 + to_double (1 / 50))) = 524288"
proof -
  have a: "to_double (524288 + 5764607523034235 / 2 ^ 58) = 4503599799169188 / 2 ^ 33"
    unfolding to_double_def
    by (subst ieee_round_eval [where e = 19 and u = "- 33" and k = 4503599799169188])
      (simp_all add: power_int_minus round_half_even_def Let_def)
  have b: "to_float (4503599799169188 / 2 ^ 33) = 524288"
    unfolding to_float_def
    by (subst ieee_round_eval [where e = 19 and u = "- 4" and k = 8388608])
      (simp_all add: power_int_minus round_half_even_def Let_def)
  show ?thesis by (simp only: to_double_002 a b)
qed



section \<open>Properties of the desired pose\<close>

lemma length_set_rotation: "length (set_rotation M) = length M"
proof -
  have "length (fold (\<lambda>i M. if i = 0 \<or> i = 4 \<or> i = 8 then M[i := 1] else M[i := 0]) is M)
        = length M" for "is" :: "nat list"
    by (induction "is" arbitrary: M) simp_all
  then show ?thesis by (simp add: set_rotation_def)
qed

lemma upt_9: "[0..<9] = [0, 1, 2, 3, 4, 5, 6, 7, 8::nat]"
  by (simp add: upt_conv_Cons)

lemma set_rotation_identity:
  assumes "length M = 9"
  shows "set_rotation M = [1, 0, 0, 0, 1, 0, 0, 0, 1]"
proof -
  from assms obtain a b c d e f g h i where "M = [a, b, c, d, e, f, g, h, i]"
    by (auto simp: length_Suc_conv eval_nat_numeral)
  then show ?thesis by (simp add: set_rotation_def upt_9)
qed

lemma position_of_length_3:
  assumes "length p = 3"
  shows "p[0 := a, Suc 0 := b, 2 := c] = [a, b, c]"
proof -
  from assms obtain x y z where "p = [x, y, z]"
    by (auto simp: length_Suc_conv eval_nat_numeral)
  then show ?thesis by simp
qed

text \<open>
  Claim C4. For every elapsed tracking time \<open>t\<close> the desired pose has the position
  \<open>(0.3 cos (t / 2\<pi>), 0.3 sin (t / 2\<pi>), 1.0)\<close> and the identity rotation; at \<open>t = 0\<close> the
  position is \<open>(0.3, 0, 1.0)\<close>, and for all \<open>t\<close> it satisfies \<open>x\<^sup>2 + y\<^sup>2 = 0.09\<close> and
  \<open>z = 1.0\<close>. The hypotheses say that \<open>F_dest\<close> is a \<open>KDL::Frame\<close>: three coordinates and
  nine rotation entries.
\<close>

theorem desired_pose_circle:
  assumes "length (frame_p F) = 3" and "length (frame_M F) = 9"
  shows "frame_p (gen_F_dest t F) = [0.3 * cos (t / (2 * pi)), 0.3 * sin (t / (2 * pi)), 1.0]
       \<and> frame_M (gen_F_dest t F) = [1, 0, 0, 0, 1, 0, 0, 0, 1]
       \<and> frame_p (gen_F_dest 0 F) = [0.3, 0, 1.0]
       \<and> (frame_p (gen_F_dest t F) ! 0)\<^sup>2 + (frame_p (gen_F_dest t F) ! 1)\<^sup>2 = 0.09
       \<and> frame_p (gen_F_dest t F) ! 2 = 1.0"
proof -
  have p: "frame_p (gen_F_dest u F) = [0.3 * cos (u / (2 * pi)), 0.3 * sin (u / (2 * pi)), 1.0]"
    for u
    using assms(1) by (simp add: gen_F_dest_def Let_def position_of_length_3)
  have m: "frame_M (gen_F_dest t F) = [1, 0, 0, 0, 1, 0, 0, 0, 1]"
    using assms(2) by (simp add: gen_F_dest_def Let_def set_rotation_identity)
  have "(0.3 * cos a)\<^sup>2 + (0.3 * sin a)\<^sup>2 = (0.09::real)" for a :: real
  proof -
    have "(0.3 * cos a)\<^sup>2 + (0.3 * sin a)\<^sup>2 = 0.09 * ((cos a)\<^sup>2 + (sin a)\<^sup>2)"
      unfolding power_mult_distrib distrib_left by (simp add: power2_eq_square)
    also have "\<dots> = 0.09" by (simp only: cos_squared_eq) simp
    finally show ?thesis .
  qed
  then have c: "(frame_p (gen_F_dest t F) ! 0)\<^sup>2 + (frame_p (gen_F_dest t F) ! 1)\<^sup>2 = 0.09"
    by (simp add: p)
  have z: "frame_p (gen_F_dest 0 F) = [0.3, 0, 1.0]"
    by (simp add: p)
  show ?thesis using p [of t] m c z by simp
qed

theorem desired_pose_circle_witness:
  "length (frame_p Frame0) = 3 \<and> length (frame_M Frame0) = 9
   \<and> frame_p (gen_F_dest 0 Frame0) = [0.3, 0, 1.0]
   \<and> frame_M (gen_F_dest 0 Frame0) = [1, 0, 0, 0, 1, 0, 0, 0, 1]"
  using desired_pose_circle [of Frame0 0] by (simp add: Frame0_def)

lemma sin_one_gt_half: "1 / 2 < sin (1::real)"
proof -
  have "pi / 6 < (1::real)" using pi_less_4 by simp
  moreover have "(1::real) \<le> pi / 2" using pi_ge_two by simp
  moreover have "- (pi / 2) \<le> pi / 6" using pi_gt_zero by simp
  ultimately have "sin (pi / 6) < sin (1::real)" by (rule sin_monotone_2pi[rotated])
  then show ?thesis by (simp add: sin_30)
qed

text \<open>
  Claim C3, as stated, fails: at \<open>t = 2\<pi>\<close> the argument of the sine is \<open>1\<close>, not \<open>2\<pi>\<close>, and
  the \<open>y\<close> coordinate is more than \<open>0.15\<close> away from its value at \<open>t = 0\<close>.
\<close>

theorem desired_pose_not_2pi_periodic:
  "frame_p (gen_F_dest (2 * pi) Frame0) ! 1 - frame_p (gen_F_dest 0 Frame0) ! 1 > 0.15"
proof -
  have "frame_p (gen_F_dest (2 * pi) Frame0) ! 1 = 0.3 * sin 1"
    by (simp add: gen_F_dest_def Let_def Frame0_def)
  moreover have "frame_p (gen_F_dest 0 Frame0) ! 1 = 0"
    by (simp add: gen_F_dest_def Let_def Frame0_def)
  ultimately show ?thesis using sin_one_gt_half by simp
qed

text \<open>
  Claim C3, amended. The desired pose is periodic in \<open>t\<close> with period \<open>4\<pi>\<^sup>2\<close>: the pose at
  \<open>t + 4\<pi>\<^sup>2\<close> is the pose at \<open>t\<close>, and the pose at \<open>4\<pi>\<^sup>2\<close> is the pose at \<open>0\<close>.
\<close>

theorem desired_pose_period:
  "gen_F_dest (t + 4 * pi\<^sup>2) F = gen_F_dest t F \<and> gen_F_dest (4 * pi\<^sup>2) F = gen_F_dest 0 F"
proof -
  have "(u + 4 * pi\<^sup>2) / (2 * pi) = u / (2 * pi) + 2 * pi" for u :: real
    by (simp add: field_simps power2_eq_square)
  then have "gen_F_dest (u + 4 * pi\<^sup>2) F = gen_F_dest u F" for u
    by (simp add: gen_F_dest_def)
  from this [of t] this [of 0] show ?thesis by simp
qed

section \<open>Properties of feedback ingestion\<close>

lemma copy_loop_defined:
  "(copy_loop is src dst \<noteq> None) = (\<forall>i\<in>set is. i < length src \<and> i < length dst)"
  by (induction "is" arbitrary: dst) auto

lemma copy_loop_result:
  "copy_loop is src dst = Some r \<Longrightarrow>
     length r = length dst \<and> (\<forall>j<length dst. r ! j = (if j \<in> set is then src ! j else dst ! j))"
proof (induction "is" arbitrary: dst)
  case Nil
  then show ?case by simp
next
  case (Cons i "is")
  from Cons.prems have b: "i < length src" "i < length dst"
    and r: "copy_loop is src (dst[i := src ! i]) = Some r"
    by (auto split: if_splits)
  from Cons.IH [OF r] show ?case
    by (auto simp: nth_list_update)
qed

lemma copy_loop_7:
  assumes "7 \<le> length src" and "7 \<le> length dst"
  shows "copy_loop [0..<7] src dst = Some (take 7 src @ drop 7 dst)"
proof -
  from assms have "copy_loop [0..<7] src dst \<noteq> None"
    by (subst copy_loop_defined) auto
  then obtain r where r: "copy_loop [0..<7] src dst = Some r" by auto
  from copy_loop_result [OF r] have len: "length r = length dst"
    and nth: "\<And>j. j < length dst \<Longrightarrow> r ! j = (if j < 7 then src ! j else dst ! j)"
    by auto
  have "r = take 7 src @ drop 7 dst"
  proof (rule nth_equalityI)
    show "length r = length (take 7 src @ drop 7 dst)"
      using assms len by simp
  next
    fix j assume "j < length r"
    then have j: "j < length dst" using len by simp
    show "r ! j = (take 7 src @ drop 7 dst) ! j"
      using assms j by (simp add: nth nth_append min_def)
  qed
  with r show ?thesis by simp
qed

text \<open>
  Claim C8. \<open>joint_states_cb\<close> reads the elements 0 to 6 of the message's position array
  and writes the elements 0 to 6 of the joint vector without validating a length. It is
  defined exactly when the message carries at least 7 positions and the joint vector has
  at least 7 entries; then no access is out of bounds, the first 7 entries are replaced
  by those of the message, the others are kept, and \<open>_first_js\<close> is set.
\<close>

theorem feedback_ingestion_bounds:
  "(joint_states_cb position s \<noteq> None) = (7 \<le> length position \<and> 7 \<le> length (q_in s))
   \<and> (7 \<le> length position \<and> 7 \<le> length (q_in s) \<longrightarrow>
        joint_states_cb position s
        = Some (s\<lparr>q_in := take 7 position @ drop 7 (q_in s), first_js := True\<rparr>))"
proof -
  have d: "(copy_loop [0..<7] position (q_in s) \<noteq> None)
           = (7 \<le> length position \<and> 7 \<le> length (q_in s))"
  proof -
    have "(\<forall>i\<in>set [0..<7]. i < length position \<and> i < length (q_in s))
          = (7 \<le> length position \<and> 7 \<le> length (q_in s))"
    proof
      assume a: "\<forall>i\<in>set [0..<7]. i < length position \<and> i < length (q_in s)"
      have "(6::nat) \<in> set [0..<7]" by simp
      with a have "6 < length position \<and> 6 < length (q_in s)" by blast
      then show "7 \<le> length position \<and> 7 \<le> length (q_in s)" by simp
    next
      assume "7 \<le> length position \<and> 7 \<le> length (q_in s)"
      then show "\<forall>i\<in>set [0..<7]. i < length position \<and> i < length (q_in s)" by auto
    qed
    then show ?thesis by (simp only: copy_loop_defined)
  qed
  have "(joint_states_cb position s \<noteq> None) = (copy_loop [0..<7] position (q_in s) \<noteq> None)"
    by (simp add: joint_states_cb_def split: option.splits)
  with d have 1: "(joint_states_cb position s \<noteq> None)
                  = (7 \<le> length position \<and> 7 \<le> length (q_in s))" by simp
  have 2: "joint_states_cb position s
           = Some (s\<lparr>q_in := take 7 position @ drop 7 (q_in s), first_js := True\<rparr>)"
    if "7 \<le> length position \<and> 7 \<le> length (q_in s)"
    using that by (simp add: joint_states_cb_def copy_loop_7)
  from 1 2 show ?thesis by blast
qed

theorem feedback_ingestion_bounds_witness:
  "7 \<le> length [1, 2, 3, 4, 5, 6, 7, 8 :: real] \<and> 7 \<le> length (q_in (KUKA_INVKIN 7))
   \<and> map_option q_in (joint_states_cb [1, 2, 3, 4, 5, 6, 7, 8] (KUKA_INVKIN 7))
       = Some [1, 2, 3, 4, 5, 6, 7]
   \<and> joint_states_cb [1, 2, 3] (KUKA_INVKIN 7) = None
   \<and> joint_states_cb [1, 2, 3, 4, 5, 6, 7] (KUKA_INVKIN 6) = None"
  using feedback_ingestion_bounds [of "[1, 2, 3, 4, 5, 6, 7, 8]" "KUKA_INVKIN 7"]
        feedback_ingestion_bounds [of "[1, 2, 3]" "KUKA_INVKIN 7"]
        feedback_ingestion_bounds [of "[1, 2, 3, 4, 5, 6, 7]" "KUKA_INVKIN 6"]
  by (simp add: KUKA_INVKIN_def)

section \<open>Properties of executions\<close>

lemma get_dirkin_tick_fields:
  "first_js (get_dirkin_tick K s) = first_js s"
  "first_fk (get_dirkin_tick K s) = True"
  "start_traj (get_dirkin_tick K s) = start_traj s"
  "freq (get_dirkin_tick K s) = freq s"
  "ctrl_pc (get_dirkin_tick K s) = ctrl_pc s"
  "q_in (get_dirkin_tick K s) = q_in s"
  "elapsed (get_dirkin_tick K s)
     = (if start_traj s
        then to_float (to_double (elapsed s + to_double (1 / real_of_int (freq s))))
        else elapsed s)"
  by (simp_all add: get_dirkin_tick_def Let_def split: prod.splits)

lemma ctrl_loop_tick_fields:
  assumes "ctrl_loop_tick K s = Some s'"
  shows "first_js s' = first_js s" "first_fk s' = first_fk s" "start_traj s' = start_traj s"
    "freq s' = freq s" "elapsed s' = elapsed s" "q_in s' = q_in s" "ctrl_pc s' = ctrl_pc s"
  using assms
  by (auto simp: ctrl_loop_tick_def Let_def split: prod.splits option.splits)

lemma joint_states_cb_fields:
  assumes "joint_states_cb position s = Some s'"
  shows "first_js s' = True" "first_fk s' = first_fk s" "start_traj s' = start_traj s"
    "freq s' = freq s" "elapsed s' = elapsed s" "ctrl_pc s' = ctrl_pc s"
  using assms
  by (auto simp: joint_states_cb_def split: option.splits)

lemma step_flags:
  assumes "step K s e = Some s'"
  shows "first_js s' = (first_js s \<or> (\<exists>position. e = JointStates position))"
    and "first_fk s' = (first_fk s \<or> e = DirkinTick)"
    and "start_traj s' = (start_traj s \<or> e = StartTraj)"
    and "freq s' = freq s"
  using assms
  by (cases e; auto simp: get_dirkin_tick_fields joint_states_cb_fields ctrl_loop_tick_fields
        split: if_splits option.splits)+

lemma step_elapsed:
  assumes "step K s e = Some s'"
  shows "elapsed s'
         = (if e = DirkinTick \<and> start_traj s
            then to_float (to_double (elapsed s + to_double (1 / real_of_int (freq s))))
            else elapsed s)"
  using assms
  by (cases e; auto simp: get_dirkin_tick_fields joint_states_cb_fields ctrl_loop_tick_fields
        split: if_splits option.splits)

lemma exec_append:
  "exec K s (es1 @ es2) = (case exec K s es1 of None \<Rightarrow> None | Some s1 \<Rightarrow> exec K s1 es2)"
  by (induction es1 arbitrary: s) (auto split: option.splits)

lemma exec_flags:
  assumes "exec K s es = Some s'"
  shows "first_js s' = (first_js s \<or> (\<exists>position. JointStates position \<in> set es))"
    and "first_fk s' = (first_fk s \<or> DirkinTick \<in> set es)"
    and "start_traj s' = (start_traj s \<or> StartTraj \<in> set es)"
    and "freq s' = freq s"
  using assms
proof (induction es arbitrary: s)
  case Nil
  { case 1 then show ?case by simp }
  { case 2 then show ?case by simp }
  { case 3 then show ?case by simp }
  { case 4 then show ?case by simp }
next
  case (Cons e es)
  { case 1
    then obtain s1 where a: "step K s e = Some s1" and b: "exec K s1 es = Some s'"
      by (auto split: option.splits)
    show ?case using Cons.IH(1) [OF b] step_flags(1) [OF a] by auto }
  { case 2
    then obtain s1 where a: "step K s e = Some s1" and b: "exec K s1 es = Some s'"
      by (auto split: option.splits)
    show ?case using Cons.IH(2) [OF b] step_flags(2) [OF a] by auto }
  { case 3
    then obtain s1 where a: "step K s e = Some s1" and b: "exec K s1 es = Some s'"
      by (auto split: option.splits)
    show ?case using Cons.IH(3) [OF b] step_flags(3) [OF a] by auto }
  { case 4
    then obtain s1 where a: "step K s e = Some s1" and b: "exec K s1 es = Some s'"
      by (auto split: option.splits)
    show ?case using Cons.IH(4) [OF b] step_flags(4) [OF a] by auto }
qed

text \<open>One more addition of \<open>1.0/_freq\<close> keeps a well-formed clock so and does not decrease it.\<close>

lemma clock_advance:
  assumes "0 \<le> t" and "representable 24 (- 149) t"
  shows "t \<le> to_float (to_double (t + to_double (1 / 50)))"
    and "representable 24 (- 149) (to_float (to_double (t + to_double (1 / 50))))"
proof -
  have "0 \<le> to_double (1 / 50)"
    unfolding to_double_def by (rule ieee_round_nonneg) simp_all
  then have "t \<le> t + to_double (1 / 50)" by simp
  with assms have "t \<le> to_double (t + to_double (1 / 50))"
    unfolding to_double_def
    by (intro ieee_round_ge representable_float_double) simp_all
  with assms show "t \<le> to_float (to_double (t + to_double (1 / 50)))"
    unfolding to_float_def by (intro ieee_round_ge) simp_all
  show "representable 24 (- 149) (to_float (to_double (t + to_double (1 / 50))))"
    unfolding to_float_def by (rule ieee_round_representable) simp
qed

lemma step_clock:
  assumes "step K s e = Some s'" and "clock_ok s"
  shows "clock_ok s'" and "elapsed s \<le> elapsed s'"
proof -
  from assms(2) have c: "freq s = 50" "0 \<le> elapsed s" "representable 24 (- 149) (elapsed s)"
    by (simp_all add: clock_ok_def)
  from step_flags(4) [OF assms(1)] c(1) have f: "freq s' = 50" by simp
  show "clock_ok s'" "elapsed s \<le> elapsed s'"
  proof -
    have "clock_ok s' \<and> elapsed s \<le> elapsed s'"
    proof (cases "e = DirkinTick \<and> start_traj s")
      case True
      with step_elapsed [OF assms(1)] c(1)
      have "elapsed s' = to_float (to_double (elapsed s + to_double (1 / 50)))" by simp
      with clock_advance [OF c(2,3)] c(2) f show ?thesis by (simp add: clock_ok_def)
    next
      case False
      with step_elapsed [OF assms(1)] have "elapsed s' = elapsed s" by auto
      with c f show ?thesis by (simp add: clock_ok_def)
    qed
    then show "clock_ok s'" "elapsed s \<le> elapsed s'" by simp_all
  qed
qed

lemma exec_clock:
  assumes "exec K s es = Some s'" and "clock_ok s"
  shows "clock_ok s'" and "elapsed s \<le> elapsed s'"
proof -
  have "clock_ok s' \<and> elapsed s \<le> elapsed s'"
    using assms
  proof (induction es arbitrary: s)
    case Nil
    then show ?case by simp
  next
    case (Cons e es)
    then obtain s1 where a: "step K s e = Some s1" and b: "exec K s1 es = Some s'"
      by (auto split: option.splits)
    from step_clock [OF a Cons.prems(2)] Cons.IH [OF b] show ?case by auto
  qed
  then show "clock_ok s'" and "elapsed s \<le> elapsed s'" by simp_all
qed

lemma exec_elapsed_zero:
  assumes "exec K s es = Some s'" and "elapsed s = 0" and "\<not> start_traj s'"
  shows "elapsed s' = 0"
  using assms
proof (induction es arbitrary: s)
  case Nil
  then show ?case by simp
next
  case (Cons e es)
  then obtain s1 where a: "step K s e = Some s1" and b: "exec K s1 es = Some s'"
    by (auto split: option.splits)
  from exec_flags(3) [OF b] Cons.prems(3) have "\<not> start_traj s1" by simp
  with step_flags(3) [OF a] have "\<not> start_traj s" by simp
  with step_elapsed [OF a] Cons.prems(2) have "elapsed s1 = 0" by simp
  from Cons.IH [OF b this Cons.prems(3)] show ?case .
qed

lemma init_fields:
  "first_js (KUKA_INVKIN n) = False" "first_fk (KUKA_INVKIN n) = False"
  "start_traj (KUKA_INVKIN n) = False" "freq (KUKA_INVKIN n) = 50"
  "elapsed (KUKA_INVKIN n) = 0"
  by (simp_all add: KUKA_INVKIN_def)

lemma init_clock: "clock_ok (KUKA_INVKIN n)"
  by (simp add: clock_ok_def init_fields representable_zero)

lemma replicate_7: "replicate 7 x = [x, x, x, x, x, x, x]"
  by (simp add: eval_nat_numeral)

lemma upt_7: "[0..<7] = [0, 1, 2, 3, 4, 5, 6::nat]"
  by (simp add: upt_conv_Cons)

lemma round_zero: "to_float 0 = 0" "to_double 0 = 0"
  by (simp_all add: to_float_def to_double_def ieee_round_def)

lemma threshold_pos: "0 < to_double 0.002"
  by (simp only: to_double_0002) simp

lemma threshold_neg: "\<not> to_double (1 / 500) < 0"
  using threshold_pos by simp

lemmas run_simps =
  KUKA_INVKIN_def joint_states_cb_def get_dirkin_tick_def ctrl_loop_tick_def gen_F_dest_def
  set_rotation_def still_kdl_def failing_kdl_def Frame0_def Pose0_def E_NOERROR_def i_cmd_def
  Let_def replicate_7 upt_7 upt_9 round_zero threshold_neg

lemma tick_elapsed_tracking:
  assumes "start_traj s" and "freq s = 50" and "elapsed s = t"
  shows "elapsed (get_dirkin_tick K s) = to_float (to_double (t + to_double (1 / 50)))"
  using assms by (simp add: get_dirkin_tick_fields)

lemma second_increment:
  "to_float (to_double (5368709 / 2 ^ 28 + to_double (1 / 50))) = 5368709 / 2 ^ 27"
proof -
  have a: "to_double (5368709 / 2 ^ 28 + 5764607523034235 / 2 ^ 58) = 5764607458609726 / 2 ^ 57"
    unfolding to_double_def
    by (subst ieee_round_eval [where e = "- 5" and u = "- 57" and k = 5764607458609726])
      (simp_all add: power_int_minus round_half_even_def Let_def)
  have b: "to_float (5764607458609726 / 2 ^ 57) = 5368709 / 2 ^ 27"
    unfolding to_float_def
    by (subst ieee_round_eval [where e = "- 5" and u = "- 28" and k = 10737418])
      (simp_all add: power_int_minus round_half_even_def Let_def)
  show ?thesis by (simp only: to_double_002 a b)
qed

text \<open>
  Claim C7, as stated, fails. After the operator's confirmation the clock is 0 and
  tracking is active; the next pose-estimation tick sets it to \<open>5368709 / 2\<^sup>2\<^sup>8\<close>, the
  \<open>float\<close> nearest to the \<open>double\<close> 0.02, which is not \<open>1/50\<close>. And in a state whose clock
  has grown to 524288, where neighbouring \<open>float\<close> values are 0.0625 apart, a tick with
  tracking active leaves the clock unchanged.
\<close>

theorem elapsed_increment_is_rounded:
  "exec still_kdl (KUKA_INVKIN 7) [JointStates i_cmd, DirkinTick, HomingPoll, StartTraj] \<noteq> None
   \<and> start_traj (the (exec still_kdl (KUKA_INVKIN 7)
         [JointStates i_cmd, DirkinTick, HomingPoll, StartTraj]))
   \<and> elapsed (the (exec still_kdl (KUKA_INVKIN 7)
         [JointStates i_cmd, DirkinTick, HomingPoll, StartTraj])) = 0
   \<and> elapsed (get_dirkin_tick still_kdl (the (exec still_kdl (KUKA_INVKIN 7)
         [JointStates i_cmd, DirkinTick, HomingPoll, StartTraj]))) = 5368709 / 2 ^ 28
   \<and> (5368709 / 2 ^ 28 :: real) \<noteq> 0 + 1 / 50
   \<and> elapsed (get_dirkin_tick still_kdl ((the (exec still_kdl (KUKA_INVKIN 7)
         [JointStates i_cmd, DirkinTick, HomingPoll, StartTraj]))\<lparr>elapsed := 524288\<rparr>)) = 524288"
proof -
  let ?e = "exec still_kdl (KUKA_INVKIN 7) [JointStates i_cmd, DirkinTick, HomingPoll, StartTraj]"
  have "?e \<noteq> None" by (simp add: run_simps)
  then obtain s0 where s0: "?e = Some s0" by auto
  then have "s0 = the ?e" by simp
  then have s: "start_traj s0" "elapsed s0 = 0" "freq s0 = 50"
    by (simp_all add: run_simps)
  have 1: "elapsed (get_dirkin_tick still_kdl s0) = 5368709 / 2 ^ 28"
    by (simp only: tick_elapsed_tracking [OF s(1) s(3) s(2)] first_increment)
  have t: "start_traj (s0\<lparr>elapsed := 524288\<rparr>)" "freq (s0\<lparr>elapsed := 524288\<rparr>) = 50"
    "elapsed (s0\<lparr>elapsed := 524288\<rparr>) = 524288"
    using s by simp_all
  have 2: "elapsed (get_dirkin_tick still_kdl (s0\<lparr>elapsed := 524288\<rparr>)) = 524288"
    by (simp only: tick_elapsed_tracking [OF t] stalled_increment)
  have 3: "(5368709 / 2 ^ 28 :: real) \<noteq> 0 + 1 / 50" by simp
  show ?thesis
    by (simp only: s0 option.sel) (use s 1 2 3 in simp)
qed

text \<open>
  Claim C7, amended. On every pose-estimation tick of an execution, \<open>_t\<close> is unchanged when
  \<open>_start_traj\<close> is false; when \<open>_start_traj\<close> is true, \<open>_t\<close> becomes the \<open>float\<close> rounding of
  the \<open>double\<close> sum of \<open>_t\<close> and \<open>1.0/50\<close>, which is never below \<open>_t\<close>: the clock advances by
  \<open>1/50\<close> up to rounding only, so \<open>_t\<close> changes only if \<open>_start_traj\<close> is true.
\<close>

theorem elapsed_advances_iff_tracking:
  assumes "exec K (KUKA_INVKIN n) es = Some s"
  shows "elapsed (get_dirkin_tick K s)
         = (if start_traj s then to_float (to_double (elapsed s + to_double (1 / 50)))
            else elapsed s)
       \<and> (\<not> start_traj s \<longrightarrow> elapsed (get_dirkin_tick K s) = elapsed s)
       \<and> (elapsed (get_dirkin_tick K s) \<noteq> elapsed s \<longrightarrow> start_traj s)
       \<and> elapsed s \<le> elapsed (get_dirkin_tick K s)"
proof -
  from exec_clock(1) [OF assms init_clock]
  have c: "freq s = 50" "0 \<le> elapsed s" "representable 24 (- 149) (elapsed s)"
    by (simp_all add: clock_ok_def)
  from clock_advance(1) [OF c(2,3)] c(1) show ?thesis
    by (simp add: get_dirkin_tick_fields)
qed

theorem elapsed_advances_iff_tracking_witness:
  "exec still_kdl (KUKA_INVKIN 7) [JointStates i_cmd, DirkinTick, HomingPoll, StartTraj] \<noteq> None
   \<and> elapsed (get_dirkin_tick still_kdl
        (the (exec still_kdl (KUKA_INVKIN 7)
           [JointStates i_cmd, DirkinTick, HomingPoll, StartTraj])))
      = to_float (to_double (0 + to_double (1 / 50)))
   \<and> exec still_kdl (KUKA_INVKIN 7) [JointStates i_cmd, DirkinTick] \<noteq> None
   \<and> elapsed (get_dirkin_tick still_kdl
        (the (exec still_kdl (KUKA_INVKIN 7) [JointStates i_cmd, DirkinTick])))
      = 0"
proof -
  let ?a = "exec still_kdl (KUKA_INVKIN 7) [JointStates i_cmd, DirkinTick, HomingPoll, StartTraj]"
  let ?b = "exec still_kdl (KUKA_INVKIN 7) [JointStates i_cmd, DirkinTick]"
  have "?a \<noteq> None" by (simp add: run_simps)
  then obtain sa where a: "?a = Some sa" by auto
  have "?b \<noteq> None" by (simp add: run_simps)
  then obtain sb where b: "?b = Some sb" by auto
  from a have "sa = the ?a" by simp
  then have sa: "start_traj sa" "elapsed sa = 0" by (simp_all add: run_simps)
  from b have "sb = the ?b" by simp
  then have sb: "\<not> start_traj sb" "elapsed sb = 0" by (simp_all add: run_simps)
  have 1: "elapsed (get_dirkin_tick still_kdl sa) = to_float (to_double (0 + to_double (1 / 50)))"
    using elapsed_advances_iff_tracking [OF a] sa by (simp only: if_True)
  have 2: "elapsed (get_dirkin_tick still_kdl sb) = 0"
    using elapsed_advances_iff_tracking [OF b] sb by (simp only: if_False)
  show ?thesis
    by (simp only: a b option.sel 1 2) simp
qed

text \<open>
  Claim C6. Over every execution the flags are monotone: \<open>_first_js\<close> and \<open>_first_fk\<close> start
  false; at any point of the execution \<open>_first_js\<close> is true exactly when a feedback message
  has been handled and \<open>_first_fk\<close> exactly when an iteration of \<open>get_dirkin\<close> has run, so
  each goes from false to true once, at the first such event; and no flag (these two and
  \<open>_start_traj\<close>) that is true at one point is false at a later one.
\<close>

theorem readiness_flags_monotone:
  assumes "exec K (KUKA_INVKIN n) (es1 @ es2) = Some s2"
  shows "\<not> first_js (KUKA_INVKIN n) \<and> \<not> first_fk (KUKA_INVKIN n)
       \<and> (\<exists>s1. exec K (KUKA_INVKIN n) es1 = Some s1
             \<and> first_js s1 = (\<exists>position. JointStates position \<in> set es1)
             \<and> first_fk s1 = (DirkinTick \<in> set es1)
             \<and> (first_js s1 \<longrightarrow> first_js s2)
             \<and> (first_fk s1 \<longrightarrow> first_fk s2)
             \<and> (start_traj s1 \<longrightarrow> start_traj s2))"
proof -
  from assms obtain s1 where a: "exec K (KUKA_INVKIN n) es1 = Some s1"
    and b: "exec K s1 es2 = Some s2"
    by (auto simp: exec_append split: option.splits)
  have "first_js s1 = (\<exists>position. JointStates position \<in> set es1)"
    using exec_flags(1) [OF a] by (simp add: init_fields)
  moreover have "first_fk s1 = (DirkinTick \<in> set es1)"
    using exec_flags(2) [OF a] by (simp add: init_fields)
  moreover have "first_js s1 \<longrightarrow> first_js s2"
    using exec_flags(1) [OF b] by simp
  moreover have "first_fk s1 \<longrightarrow> first_fk s2"
    using exec_flags(2) [OF b] by simp
  moreover have "start_traj s1 \<longrightarrow> start_traj s2"
    using exec_flags(3) [OF b] by simp
  ultimately show ?thesis using a by (simp add: init_fields)
qed

theorem readiness_flags_monotone_witness:
  "exec still_kdl (KUKA_INVKIN 7)
     ([JointStates (replicate 7 0)] @ [DirkinTick, JointStates (replicate 7 1), DirkinTick])
   \<noteq> None
   \<and> (\<exists>s1. exec still_kdl (KUKA_INVKIN 7) [JointStates (replicate 7 0)] = Some s1
         \<and> first_js s1 \<and> \<not> first_fk s1)
   \<and> first_js (the (exec still_kdl (KUKA_INVKIN 7)
        ([JointStates (replicate 7 0)] @ [DirkinTick, JointStates (replicate 7 1), DirkinTick])))"
proof -
  let ?e = "exec still_kdl (KUKA_INVKIN 7)
     ([JointStates (replicate 7 0)] @ [DirkinTick, JointStates (replicate 7 1), DirkinTick])"
  have d: "?e \<noteq> None" by (simp add: run_simps)
  then have "?e = Some (the ?e)" by auto
  from readiness_flags_monotone [OF this] d show ?thesis by auto
qed

text \<open>
  Claim C9, as stated, fails in its middle part: the two pose-estimation ticks that
  follow the operator's confirmation take the clock from 0 to \<open>5368709 / 2\<^sup>2\<^sup>8\<close> and then to
  \<open>5368709 / 2\<^sup>2\<^sup>7\<close>; neither tick leaves it unchanged and neither increases it by
  \<open>1/_freq\<close>.
\<close>

theorem elapsed_steps_are_rounded:
  "map_option elapsed (exec still_kdl (KUKA_INVKIN 7)
      [JointStates i_cmd, DirkinTick, HomingPoll, StartTraj, DirkinTick]) = Some (5368709 / 2 ^ 28)
   \<and> map_option elapsed (exec still_kdl (KUKA_INVKIN 7)
      [JointStates i_cmd, DirkinTick, HomingPoll, StartTraj, DirkinTick, DirkinTick])
     = Some (5368709 / 2 ^ 27)
   \<and> map_option freq (exec still_kdl (KUKA_INVKIN 7)
      [JointStates i_cmd, DirkinTick, HomingPoll, StartTraj, DirkinTick]) = Some 50
   \<and> (5368709 / 2 ^ 28 :: real) \<noteq> 0 \<and> (5368709 / 2 ^ 28 :: real) \<noteq> 0 + 1 / 50
   \<and> (5368709 / 2 ^ 27 :: real) \<noteq> 5368709 / 2 ^ 28
   \<and> (5368709 / 2 ^ 27 :: real) \<noteq> 5368709 / 2 ^ 28 + 1 / 50"
proof -
  let ?es = "[JointStates i_cmd, DirkinTick, HomingPoll, StartTraj]"
  let ?e = "exec still_kdl (KUKA_INVKIN 7) ?es"
  have d: "?e \<noteq> None" by (simp add: run_simps)
  then obtain s0 where s0: "?e = Some s0" by auto
  then have "s0 = the ?e" by simp
  then have s: "start_traj s0" "elapsed s0 = 0" "freq s0 = 50" "first_js s0"
    by (simp_all add: run_simps)
  let ?s1 = "get_dirkin_tick still_kdl s0"
  let ?s2 = "get_dirkin_tick still_kdl ?s1"
  have 1: "elapsed ?s1 = 5368709 / 2 ^ 28"
    by (simp only: tick_elapsed_tracking [OF s(1) s(3) s(2)] first_increment)
  have f: "freq ?s1 = 50" "start_traj ?s1" "first_js ?s1"
    by (simp_all add: get_dirkin_tick_fields s)
  have 2: "elapsed ?s2 = 5368709 / 2 ^ 27"
    by (simp only: tick_elapsed_tracking [OF f(2) f(1) 1] second_increment)
  have "exec still_kdl (KUKA_INVKIN 7) (?es @ [DirkinTick]) = Some ?s1"
    by (simp only: exec_append s0) (simp add: s)
  then have e1: "exec still_kdl (KUKA_INVKIN 7)
      [JointStates i_cmd, DirkinTick, HomingPoll, StartTraj, DirkinTick] = Some ?s1"
    by (simp only: append.simps)
  have "exec still_kdl (KUKA_INVKIN 7) (?es @ [DirkinTick, DirkinTick]) = Some ?s2"
    by (simp only: exec_append s0) (simp add: s f)
  then have e2: "exec still_kdl (KUKA_INVKIN 7)
      [JointStates i_cmd, DirkinTick, HomingPoll, StartTraj, DirkinTick, DirkinTick] = Some ?s2"
    by (simp only: append.simps)
  have n: "(5368709 / 2 ^ 28 :: real) \<noteq> 0" "(5368709 / 2 ^ 28 :: real) \<noteq> 0 + 1 / 50"
    "(5368709 / 2 ^ 27 :: real) \<noteq> 5368709 / 2 ^ 28"
    "(5368709 / 2 ^ 27 :: real) \<noteq> 5368709 / 2 ^ 28 + 1 / 50"
    by simp_all
  show ?thesis
    by (simp only: e1 e2 option.map 1 2 f) (use n in simp)
qed

text \<open>
  Claim C9, amended. Over every execution \<open>_t\<close> is monotone non-decreasing: it starts at 0,
  it is a non-negative \<open>float\<close> at every point, every step either leaves it unchanged or
  replaces it by the \<open>float\<close> rounding of the \<open>double\<close> sum of \<open>_t\<close> and \<open>1.0/_freq\<close>, where
  \<open>_freq\<close> is 50, which is not below \<open>_t\<close>; and it is exactly 0 at every point at which
  \<open>_start_traj\<close> is false.
\<close>

theorem elapsed_monotone:
  assumes "exec K (KUKA_INVKIN n) (es1 @ es2) = Some s2"
  shows "elapsed (KUKA_INVKIN n) = 0
       \<and> (\<exists>s1. exec K (KUKA_INVKIN n) es1 = Some s1
             \<and> freq s1 = 50
             \<and> 0 \<le> elapsed s1 \<and> representable 24 (- 149) (elapsed s1)
             \<and> elapsed s1 \<le> elapsed s2
             \<and> (\<not> start_traj s1 \<longrightarrow> elapsed s1 = 0)
             \<and> (\<forall>e s'. step K s1 e = Some s' \<longrightarrow>
                   elapsed s1 \<le> elapsed s'
                   \<and> (elapsed s' = elapsed s1
                      \<or> elapsed s'
                        = to_float (to_double (elapsed s1 + to_double (1 / real_of_int (freq s1)))))))"
proof -
  from assms obtain s1 where a: "exec K (KUKA_INVKIN n) es1 = Some s1"
    and b: "exec K s1 es2 = Some s2"
    by (auto simp: exec_append split: option.splits)
  from exec_clock(1) [OF a init_clock] have ok: "clock_ok s1" .
  then have c: "freq s1 = 50" "0 \<le> elapsed s1" "representable 24 (- 149) (elapsed s1)"
    by (simp_all add: clock_ok_def)
  have "elapsed s1 \<le> elapsed s2" using exec_clock(2) [OF b ok] .
  moreover have "\<not> start_traj s1 \<longrightarrow> elapsed s1 = 0"
    using exec_elapsed_zero [OF a] by (simp add: init_fields)
  moreover have "elapsed s1 \<le> elapsed s'
      \<and> (elapsed s' = elapsed s1
         \<or> elapsed s' = to_float (to_double (elapsed s1 + to_double (1 / real_of_int (freq s1)))))"
    if "step K s1 e = Some s'" for e s'
    using step_elapsed [OF that] step_clock(2) [OF that ok] by (simp split: if_splits)
  ultimately show ?thesis using a c by (auto simp: init_fields)
qed

theorem elapsed_monotone_witness:
  "exec still_kdl (KUKA_INVKIN 7)
     ([JointStates i_cmd, DirkinTick, HomingPoll, StartTraj] @ [DirkinTick, CtrlTick, DirkinTick])
   \<noteq> None
   \<and> (\<exists>s1. exec still_kdl (KUKA_INVKIN 7) [JointStates i_cmd, DirkinTick, HomingPoll, StartTraj]
             = Some s1
         \<and> elapsed s1 = 0 \<and> freq s1 = 50
         \<and> elapsed s1 \<le> elapsed (the (exec still_kdl (KUKA_INVKIN 7)
              ([JointStates i_cmd, DirkinTick, HomingPoll, StartTraj]
               @ [DirkinTick, CtrlTick, DirkinTick]))))"
proof -
  let ?e = "exec still_kdl (KUKA_INVKIN 7)
     ([JointStates i_cmd, DirkinTick, HomingPoll, StartTraj] @ [DirkinTick, CtrlTick, DirkinTick])"
  have d: "?e \<noteq> None" by (simp add: run_simps)
  have z: "elapsed (the (exec still_kdl (KUKA_INVKIN 7)
             [JointStates i_cmd, DirkinTick, HomingPoll, StartTraj])) = 0"
    by (simp add: run_simps)
  from d have "?e = Some (the ?e)" by auto
  from elapsed_monotone [OF this] d z show ?thesis by auto
qed

section \<open>Properties of the published pose\<close>

lemma get_dirkin_tick_cpose:
  assumes "GetQuaternion K (frame_M (JntToCart K (q_in s) (p_out s))) = (qx, qy, qz, qw)"
  shows "orientation_w (cpose (get_dirkin_tick K s)) = qw"
    and "orientation_x (cpose (get_dirkin_tick K s)) = qz"
    and "orientation_y (cpose (get_dirkin_tick K s)) = qy"
    and "orientation_z (cpose (get_dirkin_tick K s)) = orientation_z (cpose s)"
    and "out (get_dirkin_tick K s) = out s @ [PublishPose (cpose (get_dirkin_tick K s)), RateSleep]"
  using assms by (simp_all add: get_dirkin_tick_def Let_def)

text \<open>
  Claim C2 fails on the code. On the first pose-estimation tick, with the end effector
  turned by half a turn about the z axis, the solved quaternion \<open>(qx, qy, qz, qw)\<close> is
  \<open>(0, 0, 1, 0)\<close>, and the published message carries \<open>orientation.x = 1\<close> (the value of
  \<open>qz\<close>) and \<open>orientation.z = 0\<close> (never assigned), where the claim asks for
  \<open>orientation.x = qx = 0\<close> and \<open>orientation.z = qz = 1\<close>.
\<close>

theorem pose_orientation_slip:
  "\<exists>s. exec failing_kdl (KUKA_INVKIN 7) [JointStates (replicate 7 0), DirkinTick] = Some s
     \<and> GetQuaternion failing_kdl (frame_M (p_out s)) = (0, 0, 1, 0)
     \<and> out s = [PublishPose \<lparr>position_x = 0, position_y = 0, position_z = 1.306,
                               orientation_x = 1, orientation_y = 0, orientation_z = 0,
                               orientation_w = 0\<rparr>,
                 RateSleep]"
  by (simp add: run_simps)

section \<open>Properties of the tracking loop\<close>




section \<open>Properties of the initial positioning\<close>

lemma rounded_err_nonneg: "0 \<le> to_float \<bar>x\<bar>"
  unfolding to_float_def by (rule ieee_round_nonneg) simp_all



lemma threshold_lt_1000: "to_double 0.002 < 1000"
  by (simp only: to_double_0002) simp



lemma goto_for_Some:
  "goto_for is dp q m acts = Some (m', acts') \<Longrightarrow>
     acts' = acts @ map (\<lambda>i. PublishCmd i (dp ! i)) is"
proof (induction "is" arbitrary: m acts)
  case Nil
  then show ?case by simp
next
  case (Cons i "is")
  let ?e = "to_float \<bar>to_double (dp ! i - q ! i)\<bar>"
  let ?m = "if m < ?e then ?e else m"
  from Cons.prems have "goto_for is dp q ?m (acts @ [PublishCmd i (dp ! i)]) = Some (m', acts')"
    by (simp add: Let_def split: if_splits)
  from Cons.IH [OF this] show ?case by simp
qed

lemma goto_for_result:
  assumes "\<forall>i\<in>set is. i < length dp \<and> i < length q"
  shows "goto_for is dp q m acts
         = Some (fold (\<lambda>i m. max m (to_float \<bar>to_double (dp ! i - q ! i)\<bar>)) is m,
                 acts @ map (\<lambda>i. PublishCmd i (dp ! i)) is)"
  using assms
proof (induction "is" arbitrary: m acts)
  case Nil
  then show ?case by simp
next
  case (Cons i "is")
  let ?e = "to_float \<bar>to_double (dp ! i - q ! i)\<bar>"
  have "(if m < ?e then ?e else m) = max m ?e"
    by (simp add: max_def)
  with Cons show ?case by (simp add: Let_def)
qed

lemma fold_max:
  "fold (\<lambda>i m. max m (f i)) is (m::real) = Max (insert m (f ` set is))"
proof (induction "is" arbitrary: m)
  case Nil
  then show ?case by simp
next
  case (Cons i "is")
  have "Max (insert (max m (f i)) (f ` set is)) = Max (insert m (insert (f i) (f ` set is)))"
  proof (cases "set is = {}")
    case True
    then show ?thesis by (simp add: max.commute)
  next
    case False
    then show ?thesis by (simp add: max.assoc)
  qed
  with Cons show ?case by simp
qed

lemma goto_for_poll:
  assumes "7 \<le> length dp" and "7 \<le> length q"
  shows "goto_for [0..<7] dp q (- 1000) acts = Some (rounded_max_err dp q, acts @ poll_cmds dp)"
proof -
  let ?f = "\<lambda>i. to_float \<bar>to_double (dp ! i - q ! i)\<bar>"
  have b: "\<forall>i\<in>set [0..<7]. i < length dp \<and> i < length q"
    using assms by auto
  have ne: "?f ` {0..<7::nat} \<noteq> {}" by simp
  have "(0::real) \<le> ?f 0" by (rule rounded_err_nonneg)
  also have "?f 0 \<le> Max (?f ` {0..<7::nat})" by (rule Max_ge) simp_all
  finally have "Max (insert (- 1000) (?f ` {0..<7::nat})) = Max (?f ` {0..<7::nat})"
    using ne by (simp add: max_def)
  then have "fold (\<lambda>i m. max m (?f i)) [0..<7] (- 1000) = rounded_max_err dp q"
    by (simp add: fold_max rounded_max_err_def)
  with goto_for_result [OF b] show ?thesis by (simp add: poll_cmds_def)
qed



lemma rounded_max_err_zero:
  assumes "take 7 q = take 7 dp"
  shows "rounded_max_err dp q = 0"
proof -
  have "q ! i = dp ! i" if "i < 7" for i
  proof -
    from that have "q ! i = take 7 q ! i" by simp
    also have "\<dots> = take 7 dp ! i" by (simp only: assms)
    also from that have "\<dots> = dp ! i" by simp
    finally show ?thesis .
  qed
  then have "(\<lambda>i. to_float \<bar>to_double (dp ! i - q ! i)\<bar>) ` {0..<7} = (\<lambda>i. 0) ` {0..<7::nat}"
    by (intro image_cong) (simp_all add: round_zero)
  also have "\<dots> = {0::real}" by (simp add: image_constant_conv)
  finally show ?thesis by (simp add: rounded_max_err_def)
qed




lemma goto_while_extends:
  "goto_while fuel dp fb k m acts = (oc, k', acts') \<Longrightarrow> k \<le> k' \<and> (\<exists>ext. acts' = acts @ ext)"
proof (induction fuel arbitrary: k m acts)
  case 0
  then show ?case by (auto split: if_splits)
next
  case (Suc f)
  show ?case
  proof (cases "to_double 0.002 < m")
    case False
    with Suc.prems show ?thesis by simp
  next
    case True
    show ?thesis
    proof (cases "goto_for [0..<7] dp (fb k) (- 1000) acts")
      case None
      with True Suc.prems show ?thesis by simp
    next
      case (Some r)
      obtain m1 a1 where r: "r = (m1, a1)" by (cases r)
      from goto_for_Some Some r obtain x where a1: "a1 = acts @ x" by blast
      from True Some r Suc.prems
      have "goto_while f dp fb (Suc k) m1 (a1 @ [RateSleep]) = (oc, k', acts')" by simp
      from Suc.IH [OF this] a1 show ?thesis by auto
    qed
  qed
qed

lemma goto_initial_position_cases:
  "goto_initial_position fuel dp fb
   = (let r = goto_while fuel dp fb 0 1000 []
      in if fst r = Returned then (Returned, fst (snd r), snd (snd r) @ [Sleep 2]) else r)"
  by (simp add: goto_initial_position_def Let_def split: prod.splits outcome.splits)

text \<open>
  Claim C10. For every target, \<open>goto_initial_position\<close> executes the body of its loop at
  least once, because \<open>max_e\<close> starts at 1000, above the threshold: whenever the loop may
  run at all (some fuel), at least one poll is executed and the log starts with the seven
  commands of the target, whatever happens afterwards. In particular, when the feedback
  already equals the target, the routine still publishes the seven commands once and then
  returns.
\<close>

theorem homing_polls_at_least_once:
  assumes "7 \<le> length dp" and "7 \<le> length (fb 0)"
  shows "(\<exists>oc k ext. goto_initial_position (Suc fuel) dp fb
                       = (oc, k, poll_cmds dp @ [RateSleep] @ ext) \<and> 1 \<le> k)
       \<and> (take 7 (fb 0) = take 7 dp \<longrightarrow>
            goto_initial_position (Suc fuel) dp fb
            = (Returned, 1, poll_cmds dp @ [RateSleep, Sleep 2]))"
proof -
  from goto_for_poll [OF assms]
  have p: "goto_for [0..<7] dp (fb 0) (- 1000) [] = Some (rounded_max_err dp (fb 0), poll_cmds dp)"
    by simp
  let ?r = "goto_while fuel dp fb (Suc 0) (rounded_max_err dp (fb 0)) (poll_cmds dp @ [RateSleep])"
  have w: "goto_while (Suc fuel) dp fb 0 1000 [] = ?r"
    using p threshold_lt_1000 by simp
  obtain oc k acts where r: "?r = (oc, k, acts)" by (cases ?r)
  from goto_while_extends [OF r] obtain ext where k: "1 \<le> k"
    and acts: "acts = poll_cmds dp @ [RateSleep] @ ext" by auto
  have 1: "\<exists>oc k ext. goto_initial_position (Suc fuel) dp fb
                       = (oc, k, poll_cmds dp @ [RateSleep] @ ext) \<and> 1 \<le> k"
  proof (cases "oc = Returned")
    case True
    with w r acts have "goto_initial_position (Suc fuel) dp fb
                        = (oc, k, poll_cmds dp @ [RateSleep] @ (ext @ [Sleep 2]))"
      by (simp add: goto_initial_position_cases)
    with k show ?thesis by blast
  next
    case False
    with w r acts have "goto_initial_position (Suc fuel) dp fb
                        = (oc, k, poll_cmds dp @ [RateSleep] @ ext)"
      by (simp add: goto_initial_position_cases)
    with k show ?thesis by blast
  qed
  have 2: "goto_initial_position (Suc fuel) dp fb
           = (Returned, 1, poll_cmds dp @ [RateSleep, Sleep 2])"
    if "take 7 (fb 0) = take 7 dp"
  proof -
    from that have "rounded_max_err dp (fb 0) = 0" by (rule rounded_max_err_zero)
    moreover have "\<not> to_double 0.002 < 0" using threshold_pos by simp
    ultimately have "?r = (Returned, Suc 0, poll_cmds dp @ [RateSleep])"
      by (cases fuel) simp_all
    with w show ?thesis by (simp add: goto_initial_position_cases)
  qed
  from 1 2 show ?thesis by blast
qed

theorem homing_polls_at_least_once_witness:
  "7 \<le> length i_cmd \<and> 7 \<le> length (steady i_cmd 0)
   \<and> take 7 (steady i_cmd 0) = take 7 i_cmd
   \<and> goto_initial_position (Suc 0) i_cmd (steady i_cmd)
     = (Returned, 1,
        [PublishCmd 0 (i_cmd ! 0), PublishCmd 1 (i_cmd ! 1), PublishCmd 2 (i_cmd ! 2),
         PublishCmd 3 (i_cmd ! 3), PublishCmd 4 (i_cmd ! 4), PublishCmd 5 (i_cmd ! 5),
         PublishCmd 6 (i_cmd ! 6), RateSleep, Sleep 2])"
proof -
  have l: "7 \<le> length i_cmd" "7 \<le> length (steady i_cmd 0)"
    by (simp_all add: i_cmd_def steady_def)
  have t: "take 7 (steady i_cmd 0) = take 7 i_cmd" by (simp add: steady_def)
  from homing_polls_at_least_once [of i_cmd "steady i_cmd" 0] l t show ?thesis
    by (simp add: poll_cmds_def upt_7)
qed








end
